theory Spec2Isabelle
  imports Complex_Main "HOL-Library.Word" "HOL-Library.Signed_Division"
begin

unbundle bit_operations_syntax

section \<open>Data model of the terrain generator (camera.c, Genland part)\<close>

text \<open>
  \<^verbatim>\<open>typedef struct { unsigned char b, g, r, a; } vcol;\<close> with \<^verbatim>\<open>#pragma pack(1)\<close>.
  The field names carry the prefix \<open>col_\<close>.  The grid side is the macro \<^verbatim>\<open>VSID\<close> (512),
  \<^verbatim>\<open>VSHL\<close> is its binary logarithm (9).  A buffer \<^verbatim>\<open>vcol buf[VSID*VSID]\<close> is a function
  from the cell index \<open>y*VSID+x\<close> to the cell.
\<close>

type_synonym uchar = "8 word"

record vcol =
  col_b :: uchar
  col_g :: uchar
  col_r :: uchar
  col_a :: uchar

definition VSHL :: nat where
  "VSHL = 9"

definition VSID :: nat where
  "VSID = 512"

section \<open>Terrain synthesis: the body of the cell loop of \<^verbatim>\<open>generate_tomland_terrain\<close>\<close>

text \<open>
  The values of type \<^verbatim>\<open>double\<close> and \<^verbatim>\<open>float\<close> are modelled as real numbers: rounding
  is not part of the model.  The fractal sums \<open>d\<close> and \<open>river\<close> of the noise octaves
  are inputs of the functions below.

  \<open>river_mask\<close> is the value of \<open>d\<close> after
  \<^verbatim>\<open>d = sin(x*(PI/256.0) + river*4.0)*(.5+.02)+(.5-.02); if (d > 1) d = 1;\<close>
\<close>

definition river_mask :: "nat \<Rightarrow> real \<Rightarrow> real" where
  "river_mask x river =
     (let d = sin (real x * (pi / 256.0) + river * 4.0) * (0.5 + 0.02) + (0.5 - 0.02)
      in if d > 1 then 1 else d)"

text \<open>
  One of the three samples: from the fractal sum \<open>dn\<close> and the river sum to
  \<open>(samp[i], csamp[i])\<close>.
\<close>

definition carve :: "nat \<Rightarrow> real \<Rightarrow> real \<Rightarrow> real \<times> real" where
  "carve x dn river =
     (let samp = dn * - 20.0 + 28.0;
          d = river_mask x river;
          csamp = samp * d;
          d = (if d < 0 then 0 else d);
          samp = samp * d;
          csamp = (if csamp < samp then - ln (1.0 - csamp) else csamp)
      in (samp, csamp))"

text \<open>
  The conversion \<^verbatim>\<open>(unsigned char)v\<close> of a \<^verbatim>\<open>double\<close>: the fraction is discarded
  (rounding towards zero).  For a value outside the range of the type C leaves the result
  open; the model takes the low eight bits of the truncated integer, which is the
  wrap-around.
\<close>

definition trunc_real :: "real \<Rightarrow> int" where
  "trunc_real v = (if v < 0 then \<lceil>v\<rceil> else \<lfloor>v\<rfloor>)"

definition uchar_of_real :: "real \<Rightarrow> uchar" where
  "uchar_of_real v = word_of_int (trunc_real v)"

text \<open>The surface normal from the three wet samples (\<^verbatim>\<open>EPS\<close> is 0.1).\<close>

definition EPS :: real where
  "EPS = 0.1"

definition cell_normal :: "real \<Rightarrow> real \<Rightarrow> real \<Rightarrow> real \<times> real \<times> real" where
  "cell_normal c0 c1 c2 =
     (let nx = c1 - c0; ny = c2 - c0; nz = - EPS;
          d = 1.0 / sqrt (nx * nx + ny * ny + nz * nz)
      in (nx * d, ny * d, nz * d))"

text \<open>
  The colour blend: ground, grass, second grass tone, water.  \<open>gn\<close> is the noise sample
  \<^verbatim>\<open>noise3d(x*(1.0/64.0),y*(1.0/64.0),.3,15)\<close>.
\<close>

definition cell_blend :: "real \<Rightarrow> real \<Rightarrow> real \<Rightarrow> real \<Rightarrow> real \<times> real \<times> real" where
  "cell_blend nz s0 c0 gn =
     (let gr = 140; gg = 125; gb = 115;
          g = min (max (max (- nz) 0 * 1.4 - c0 / 32.0 + gn * 0.3) 0) 1;
          gr = gr + (72 - gr) * g; gg = gg + (80 - gg) * g; gb = gb + (32 - gb) * g;
          g2 = (1 - \<bar>g - 0.5\<bar> * 2) * 0.7;
          gr = gr + (68 - gr) * g2; gg = gg + (78 - gg) * g2; gb = gb + (40 - gb) * g2;
          g2 = max (min ((s0 - c0) * 1.5) 1) 0;
          g = 1 - g2 * 0.2;
          gr = gr + (60 * g - gr) * g2; gg = gg + (100 * g - gg) * g2;
          gb = gb + (120 * g - gb) * g2
      in (gr, gg, gb))"

text \<open>
  The ambient cell \<^verbatim>\<open>amb[k]\<close>.  Its fourth byte is never assigned and keeps the 0 of the
  static array.
\<close>

definition ambient_cell :: "real \<Rightarrow> real \<Rightarrow> real \<Rightarrow> vcol" where
  "ambient_cell gr gg gb =
     (let d = 0.3
      in \<lparr>col_b = uchar_of_real (min (max (gb * d) 0) 255),
          col_g = uchar_of_real (min (max (gg * d) 0) 255),
          col_r = uchar_of_real (min (max (gr * d) 0) 255),
          col_a = 0\<rparr>)"

text \<open>
  The light factor \<^verbatim>\<open>d = (nx*.5 + ny*.25 - nz)/sqrt(.5*.5 + .25*.25 + 1.0*1.0); d *= 1.2;\<close>
\<close>

definition light_factor :: "real \<Rightarrow> real \<Rightarrow> real \<Rightarrow> real" where
  "light_factor nx ny nz =
     (let d = (nx * 0.5 + ny * 0.25 - nz) / sqrt (0.5 * 0.5 + 0.25 * 0.25 + 1.0 * 1.0)
      in d * 1.2)"

text \<open>\<^verbatim>\<open>maxa = max(max(amb[k].r,amb[k].g),amb[k].b)\<close>\<close>

definition maxa_of :: "vcol \<Rightarrow> int" where
  "maxa_of am = max (max (uint (col_r am)) (uint (col_g am))) (uint (col_b am))"

text \<open>The lit cell \<^verbatim>\<open>buf[k]\<close>, from the ambient cell just stored.\<close>

definition lit_cell ::
  "vcol \<Rightarrow> real \<Rightarrow> real \<Rightarrow> real \<Rightarrow> real \<Rightarrow> real \<Rightarrow> real \<Rightarrow> real \<Rightarrow> vcol" where
  "lit_cell am gr gg gb nx ny nz s0 =
     (let maxa = maxa_of am;
          d = light_factor nx ny nz
      in \<lparr>col_b = uchar_of_real (min (max (gb * d) 0) (real_of_int (255 - maxa))),
          col_g = uchar_of_real (min (max (gg * d) 0) (real_of_int (255 - maxa))),
          col_r = uchar_of_real (min (max (gr * d) 0) (real_of_int (255 - maxa))),
          col_a = uchar_of_real (175.0 - s0 * (real VSID / 256.0))\<rparr>)"

text \<open>
  The whole body of the cell loop for a cell in column \<open>x\<close>.  The inputs are the
  results of the noise octaves: for each of the three sample points the pair of the
  fractal sum \<open>d\<close> and the river sum, and the colour noise \<open>gn\<close>.  The result is the
  ambient cell, the lit cell and the height \<^verbatim>\<open>hgt[k]\<close>.
\<close>

type_synonym cell_noise = "(real \<times> real) \<times> (real \<times> real) \<times> (real \<times> real) \<times> real"

definition terrain_cell :: "nat \<Rightarrow> cell_noise \<Rightarrow> vcol \<times> vcol \<times> real" where
  "terrain_cell x ns =
     (case ns of ((d0, r0), (d1, r1), (d2, r2), gn) \<Rightarrow>
      case carve x d0 r0 of (s0, c0) \<Rightarrow>
      case carve x d1 r1 of (s1, c1) \<Rightarrow>
      case carve x d2 r2 of (s2, c2) \<Rightarrow>
      case cell_normal c0 c1 c2 of (nx, ny, nz) \<Rightarrow>
      case cell_blend nz s0 c0 gn of (gr, gg, gb) \<Rightarrow>
        let am = ambient_cell gr gg gb
        in (am, lit_cell am gr gg gb nx ny nz s0, c0))"

section \<open>Shadow pass\<close>

text \<open>
  A loop nest \<^verbatim>\<open>for(y=0;y<VSID;y++) for(x=0;x<VSID;x++,k++)\<close> over a state; the
  counter \<open>k\<close> of the source is \<open>y*VSID+x\<close> in the body.
\<close>

definition grid_fold :: "(nat \<Rightarrow> nat \<Rightarrow> 's \<Rightarrow> 's) \<Rightarrow> 's \<Rightarrow> 's" where
  "grid_fold body = fold (\<lambda>y. fold (\<lambda>x. body x y) [0..<VSID]) [0..<VSID]"

text \<open>
  The terrain loop over the three global arrays \<^verbatim>\<open>amb\<close>, \<^verbatim>\<open>buf\<close> and \<^verbatim>\<open>hgt\<close>;
  \<open>inp k\<close> is the noise of the cell with index \<open>k\<close>.
\<close>

type_synonym terrain_bufs = "(nat \<Rightarrow> vcol) \<times> (nat \<Rightarrow> vcol) \<times> (nat \<Rightarrow> real)"

definition terrain_body :: "(nat \<Rightarrow> cell_noise) \<Rightarrow> nat \<Rightarrow> nat \<Rightarrow> terrain_bufs \<Rightarrow> terrain_bufs" where
  "terrain_body inp x y st =
     (case st of (amb, buf, hgt) \<Rightarrow>
      case terrain_cell x (inp (y * VSID + x)) of (am, lit, h) \<Rightarrow>
        (amb(y * VSID + x := am), buf(y * VSID + x := lit), hgt(y * VSID + x := h)))"

definition terrain_pass :: "(nat \<Rightarrow> cell_noise) \<Rightarrow> terrain_bufs \<Rightarrow> terrain_bufs" where
  "terrain_pass inp = grid_fold (terrain_body inp)"

text \<open>
  The index \<^verbatim>\<open>(((y-(j>>1))&(VSID-1))<<VSHL)+((x-i)&(VSID-1))\<close> of the cell examined at
  step \<open>i = j\<close> of the march.
\<close>

definition march_index :: "nat \<Rightarrow> nat \<Rightarrow> nat \<Rightarrow> nat \<Rightarrow> nat" where
  "march_index x y i j =
     nat (push_bit VSHL ((int y - drop_bit 1 (int j)) AND (int VSID - 1))
          + ((int x - int i) AND (int VSID - 1)))"

text \<open>
  The march \<^verbatim>\<open>for(i=j=1;i<(VSID>>2);j++,i++,f+=.44)\<close>; \<open>i\<close> and \<open>j\<close> are always
  equal, \<open>s\<close> is the current \<^verbatim>\<open>sh[k]\<close>, and the result is \<^verbatim>\<open>sh[k]\<close> after the loop.
\<close>

function shadow_march :: "(nat \<Rightarrow> real) \<Rightarrow> nat \<Rightarrow> nat \<Rightarrow> nat \<Rightarrow> real \<Rightarrow> uchar \<Rightarrow> uchar" where
  "shadow_march hgt x y i f s =
     (if i < drop_bit 2 VSID
      then (if hgt (march_index x y i i) > f then 32
            else shadow_march hgt x y (i + 1) (f + 0.44) s)
      else s)"
  by pat_completeness auto
termination
  by (relation "measure (\<lambda>(hgt, x, y, i, f, s). drop_bit 2 VSID - i)") auto

definition shadow_cell :: "(nat \<Rightarrow> real) \<Rightarrow> nat \<Rightarrow> nat \<Rightarrow> uchar \<Rightarrow> uchar" where
  "shadow_cell hgt x y s = shadow_march hgt x y 1 (hgt (y * VSID + x) + 0.44) s"

text \<open>\<^verbatim>\<open>memset(sh,0,sizeof(sh))\<close> and the march of every cell.\<close>

definition shadow_pass :: "(nat \<Rightarrow> real) \<Rightarrow> (nat \<Rightarrow> uchar)" where
  "shadow_pass hgt =
     grid_fold (\<lambda>x y sh. sh(y * VSID + x := shadow_cell hgt x y (sh (y * VSID + x)))) (\<lambda>k. 0)"

text \<open>
  The smoothing pass, in place: the sum is formed in \<^verbatim>\<open>int\<close> and the result stored
  back into the \<^verbatim>\<open>unsigned char\<close>.
\<close>

definition blur_cell :: "nat \<Rightarrow> nat \<Rightarrow> (nat \<Rightarrow> uchar) \<Rightarrow> (nat \<Rightarrow> uchar)" where
  "blur_cell x y sh =
     sh(y * VSID + x := word_of_int (drop_bit 2
         (uint (sh (y * VSID + x))
          + uint (sh (push_bit VSHL ((y + 1) AND (VSID - 1)) + x))
          + uint (sh (push_bit VSHL y + ((x + 1) AND (VSID - 1))))
          + uint (sh (push_bit VSHL ((y + 1) AND (VSID - 1)) + ((x + 1) AND (VSID - 1))))
          + 2)))"

definition blur_pass :: "(nat \<Rightarrow> uchar) \<Rightarrow> (nat \<Rightarrow> uchar)" where
  "blur_pass = grid_fold blur_cell"

text \<open>
  The composite \<^verbatim>\<open>((buf[k].r*i)>>8) + amb[k].r\<close> with \<^verbatim>\<open>i = 256-(sh[k]<<2)\<close>, as the
  \<^verbatim>\<open>int\<close> the expression has before it is stored into the byte.
\<close>

definition composite_value :: "uchar \<Rightarrow> uchar \<Rightarrow> uchar \<Rightarrow> int" where
  "composite_value lit am s =
     (let i = 256 - push_bit 2 (uint s) in drop_bit 8 (uint lit * i) + uint am)"

definition composite_cell :: "vcol \<Rightarrow> vcol \<Rightarrow> uchar \<Rightarrow> vcol" where
  "composite_cell c am s =
     c\<lparr>col_r := word_of_int (composite_value (col_r c) (col_r am) s),
       col_g := word_of_int (composite_value (col_g c) (col_g am) s),
       col_b := word_of_int (composite_value (col_b c) (col_b am) s)\<rparr>"

definition composite_pass ::
  "(nat \<Rightarrow> vcol) \<Rightarrow> (nat \<Rightarrow> uchar) \<Rightarrow> (nat \<Rightarrow> vcol) \<Rightarrow> (nat \<Rightarrow> vcol)" where
  "composite_pass amb sh buf =
     grid_fold (\<lambda>x y buf. buf(y * VSID + x :=
        composite_cell (buf (y * VSID + x)) (amb (y * VSID + x)) (sh (y * VSID + x)))) buf"

text \<open>
  The raster of \<^verbatim>\<open>generate_tomland_terrain\<close> after the three shadow loops, from the
  noise of the cells and the contents the global arrays had before the run.
\<close>

definition shade_terrain :: "(nat \<Rightarrow> cell_noise) \<Rightarrow> terrain_bufs \<Rightarrow> (nat \<Rightarrow> vcol)" where
  "shade_terrain inp st =
     (case terrain_pass inp st of (amb, buf, hgt) \<Rightarrow>
        composite_pass amb (blur_pass (shadow_pass hgt)) buf)"

section \<open>Voxelizer: \<^verbatim>\<open>process_voxel_data\<close>\<close>

text \<open>
  The volume is an external collaborator; the model records the calls of
  \<^verbatim>\<open>volume_set_at(volume, NULL, pos, color)\<close> in call order, each as the position
  \<open>(pos[0], pos[1], pos[2])\<close> and the four colour bytes.
\<close>

type_synonym vwrite = "(int \<times> int \<times> int) \<times> (uchar \<times> uchar \<times> uchar \<times> uchar)"

text \<open>Body of the inner loop for the cell \<open>(x, y)\<close> that \<^verbatim>\<open>argb\<close> points to.\<close>

definition voxel_cell :: "nat \<Rightarrow> nat \<Rightarrow> vcol \<Rightarrow> vwrite list" where
  "voxel_cell x y c =
     (let z = uint (col_a c)
      in if z > 0 then [((int x, int y, z), (col_r c, col_g c, col_b c, 255))] else [])"

text \<open>The two loops; \<^verbatim>\<open>argb++\<close> in the inner loop makes the cell index \<open>y*VSID+x\<close>.\<close>

definition process_voxel_data :: "(nat \<Rightarrow> vcol) \<Rightarrow> vwrite list" where
  "process_voxel_data argb =
     concat (map (\<lambda>y. concat (map (\<lambda>x. voxel_cell x y (argb (y * VSID + x))) [0..<VSID]))
                 [0..<VSID])"

text \<open>The writes of a log that go to the column \<open>(x, y)\<close>.\<close>

definition writes_at :: "nat \<Rightarrow> nat \<Rightarrow> vwrite list \<Rightarrow> vwrite list" where
  "writes_at x y ws = filter (\<lambda>w. fst (fst w) = int x \<and> fst (snd (fst w)) = int y) ws"

section \<open>The signature bitmap: \<^verbatim>\<open>signprint\<close>\<close>

definition SIGNBPL :: nat where
  "SIGNBPL = 13"

definition SIGNXSIZ :: nat where
  "SIGNXSIZ = 100"

definition SIGNYSIZ :: nat where
  "SIGNYSIZ = 19"

definition signfplc :: "nat list" where
  "signfplc =
    [0x10,0xdd,0xc1,0x15,0xdc,0x45,0xcc,0xdd,0x5d,0x74,0x71,0xe9,0x00,
     0xb0,0x55,0x41,0x15,0x48,0x6d,0x54,0x55,0x55,0x54,0x11,0x45,0x00,
     0x50,0xdd,0xc1,0x1c,0x48,0x55,0x54,0xcd,0x54,0x55,0x71,0x43,0x00,
     0x10,0x55,0x40,0x09,0x48,0x45,0x54,0x55,0xd5,0x56,0x41,0x45,0x00,
     0x10,0x55,0xc0,0x09,0xc8,0x45,0xcc,0x5d,0x5d,0x74,0x77,0xe9,0x00,
     0x00,0x00,0x00,0x00,0x00,0x00,0x00,0x00,0x00,0x00,0x00,0x00,0x00,
     0x00,0x00,0x00,0x00,0x00,0x00,0x00,0x00,0x00,0x00,0x00,0x00,0x00,
     0x75,0x77,0x80,0xc8,0xdd,0xc0,0x15,0x5c,0x40,0xcb,0x5d,0x94,0x0a,
     0x25,0x52,0x42,0x24,0x44,0x41,0x15,0x54,0x20,0x8d,0xd4,0x56,0x0a,
     0x27,0x72,0x20,0xa2,0x4d,0xc1,0x09,0x5c,0x10,0x80,0x54,0x35,0x0e,
     0x25,0x12,0x12,0x21,0x45,0x41,0x15,0x44,0x08,0x80,0x54,0x54,0x0a,
     0x25,0x12,0x88,0xc0,0xdc,0x48,0x95,0xc4,0x05,0x80,0x5c,0x94,0x0a,
     0x00,0x00,0x00,0x00,0x00,0x00,0x00,0x00,0x00,0x00,0x00,0x00,0x00,
     0x00,0x00,0x00,0x00,0x00,0x00,0x00,0x00,0x00,0x00,0x00,0x00,0x00,
     0x00,0x77,0x77,0x70,0x77,0x30,0x77,0x77,0x77,0x75,0x77,0x09,0x00,
     0x00,0x51,0x11,0x10,0x55,0x50,0x12,0x52,0x52,0x25,0x52,0x0b,0x00,
     0x00,0x33,0x33,0x30,0x35,0x50,0x72,0x32,0x32,0x25,0x52,0x0d,0x00,
     0x00,0x51,0x11,0x10,0x55,0x50,0x42,0x52,0x52,0x25,0x52,0x09,0x00,
     0x00,0x51,0x77,0x10,0x57,0x30,0x77,0x52,0x77,0x27,0x77,0x09,0x00]"

text \<open>The test \<^verbatim>\<open>signfplc[y*SIGNBPL+(x>>3)]&(1<<(x&7))\<close> of the inner loop.\<close>

definition sign_bit :: "nat \<Rightarrow> nat \<Rightarrow> bool" where
  "sign_bit x y \<longleftrightarrow>
     (signfplc ! (y * SIGNBPL + drop_bit 3 x)) AND push_bit (x AND 7) 1 \<noteq> 0"

text \<open>
  \<^verbatim>\<open>signprint\<close> reads the raster \<^verbatim>\<open>buf\<close> through a \<^verbatim>\<open>long *\<close>; the code takes a
  \<^verbatim>\<open>long\<close> to be the four bytes of one \<^verbatim>\<open>vcol\<close> (it shifts the cell index by 2 to get
  the byte offset), and so does the model: memory is addressed in units of one cell,
  relative to the start of \<^verbatim>\<open>buf\<close>, and holds 32-bit words.  The cells of \<^verbatim>\<open>buf\<close> are
  the indices \<open>0 \<le> i < VSID*VSID\<close>; any other index is memory outside the raster.

  \<open>signprint_targets x0 y0\<close> lists, in the order of the loops, the indices
  \<^verbatim>\<open>lptr + x\<close> at which \<^verbatim>\<open>lptr[x] -= 0x01101010\<close> is executed.
\<close>

definition signprint_targets :: "int \<Rightarrow> int \<Rightarrow> int list" where
  "signprint_targets x0 y0 =
     concat (map (\<lambda>y. concat (map (\<lambda>x.
         if sign_bit x y then [(y0 * int VSID + x0) + int y * int VSID + int x] else [])
       [0..<SIGNXSIZ])) [0..<SIGNYSIZ])"

definition signprint :: "int \<Rightarrow> int \<Rightarrow> (int \<Rightarrow> 32 word) \<Rightarrow> (int \<Rightarrow> 32 word)" where
  "signprint x0 y0 mem = fold (\<lambda>i m. m(i := m i - 0x01101010)) (signprint_targets x0 y0) mem"

section \<open>Legacy export: \<^verbatim>\<open>savevxl\<close>\<close>

text \<open>
  The file is the list of the bytes written so far.  A byte is either a known value or
  one of the eight bytes of a \<^verbatim>\<open>double\<close>, kept symbolic: \<open>DblByte i v\<close> is byte \<open>i\<close>
  of the representation of \<open>v\<close>.
\<close>

datatype fbyte = Byte uchar | DblByte nat real

text \<open>\<^verbatim>\<open>fwrite(&i,4,1,fil)\<close> of a \<^verbatim>\<open>long\<close>: its four low bytes, lowest first.\<close>

definition le4 :: "32 word \<Rightarrow> fbyte list" where
  "le4 w = [Byte (ucast w), Byte (ucast (drop_bit 8 w)), Byte (ucast (drop_bit 16 w)), Byte (ucast (drop_bit 24 w))]"

text \<open>\<^verbatim>\<open>fwrite(&p,24,1,fil)\<close> of a packed \<^verbatim>\<open>dpoint3d\<close>: three doubles.\<close>

definition dbl8 :: "real \<Rightarrow> fbyte list" where
  "dbl8 v = map (\<lambda>i. DblByte i v) [0..<8]"

definition dpoint3d :: "real \<times> real \<times> real \<Rightarrow> fbyte list" where
  "dpoint3d p = (case p of (px, py, pz) \<Rightarrow> dbl8 px @ dbl8 py @ dbl8 pz)"

text \<open>\<^verbatim>\<open>fputc(c,fil)\<close> writes \<open>c\<close> converted to \<^verbatim>\<open>unsigned char\<close>.\<close>

definition fputc :: "int \<Rightarrow> fbyte list \<Rightarrow> fbyte list" where
  "fputc c fil = fil @ [Byte (word_of_int c)]"

text \<open>\<^verbatim>\<open>*(long *)argb\<close>: the four bytes of the cell read as one little-endian word.\<close>

definition cell_long :: "vcol \<Rightarrow> 32 word" where
  "cell_long c = ucast (col_b c) OR push_bit 8 (ucast (col_g c))
       OR push_bit 16 (ucast (col_r c)) OR push_bit 24 (ucast (col_a c))"

text \<open>
  One round of \<^verbatim>\<open>for(i=-1;i<=1;i+=2)\<close>: the neighbours in the row and in the column,
  where they exist.  The test \<^verbatim>\<open>(unsigned long)(x+i) < VSID\<close> is \<open>0 \<le> x+i < VSID\<close>.
\<close>

definition slab_step :: "(nat \<Rightarrow> vcol) \<Rightarrow> nat \<Rightarrow> nat \<Rightarrow> int \<Rightarrow> int \<Rightarrow> int" where
  "slab_step argb x y i zz =
     (let k = y * VSID + x;
          zz = (if 0 \<le> int x + i \<and> int x + i < int VSID
                then (let j = uint (col_a (argb (nat (int k + i)))) in if j > zz then j else zz)
                else zz);
          zz = (if 0 \<le> int y + i \<and> int y + i < int VSID
                then (let j = uint (col_a (argb (nat (int k + i * int VSID))))
                      in if j > zz then j else zz)
                else zz)
      in zz)"

definition slab_zz :: "(nat \<Rightarrow> vcol) \<Rightarrow> nat \<Rightarrow> nat \<Rightarrow> int" where
  "slab_zz argb x y =
     (let z = uint (col_a (argb (y * VSID + x)));
          zz = z + 1
      in fold (slab_step argb x y) [- 1, 1] zz)"

text \<open>The loop \<^verbatim>\<open>for(;z<zz;z++) fwrite(&i,4,1,fil);\<close>\<close>

function write_run :: "fbyte list \<Rightarrow> 32 word \<Rightarrow> int \<Rightarrow> int \<Rightarrow> fbyte list" where
  "write_run fil i z zz = (if z < zz then write_run (fil @ le4 i) i (z + 1) zz else fil)"
  by pat_completeness auto
termination
  by (relation "measure (\<lambda>(fil, i, z, zz). nat (zz - z))") auto

text \<open>The body of the column loop for the column \<open>(x, y)\<close>.\<close>

definition savevxl_column :: "(nat \<Rightarrow> vcol) \<Rightarrow> nat \<Rightarrow> nat \<Rightarrow> fbyte list \<Rightarrow> fbyte list" where
  "savevxl_column argb x y fil =
     (let k = y * VSID + x;
          z = uint (col_a (argb k));
          zz = slab_zz argb x y;
          fil = fputc 0 fil;
          fil = fputc z fil;
          fil = fputc ((zz - 1) AND 255) fil;
          fil = fputc 0 fil;
          i = (cell_long (argb k) AND 0xffffff) OR 0x80000000
      in write_run fil i z zz)"

text \<open>
  \<^verbatim>\<open>savevxl\<close>: the return value and the file.  \<open>fopen_ok\<close> tells whether
  \<^verbatim>\<open>fopen\<close> succeeds; when it does not, -1 is returned and nothing is written.
\<close>

definition savevxl :: "bool \<Rightarrow> (nat \<Rightarrow> vcol) \<Rightarrow> int \<times> fbyte list option" where
  "savevxl fopen_ok argb =
     (if \<not> fopen_ok then (- 1, None)
      else
        let fil = [];
            fil = fil @ le4 0x09072000;
            fil = fil @ le4 (of_nat VSID);
            fil = fil @ le4 (of_nat VSID);
            ipo = (real VSID * 0.5, real VSID * 0.5,
                   real_of_int (uint (col_a (argb (drop_bit 1 VSID * VSID + drop_bit 1 VSID))) - 64));
            ist = (1, 0, 0);
            ihe = (0, 0, 1);
            ifo = (0, - 1, 0);
            fil = fil @ dpoint3d ipo;
            fil = fil @ dpoint3d ist;
            fil = fil @ dpoint3d ihe;
            fil = fil @ dpoint3d ifo;
            fil = grid_fold (savevxl_column argb) fil
        in (0, Some fil))"

section \<open>Colour quantizer (Wu's algorithm): \<^verbatim>\<open>genpal\<close>\<close>

text \<open>
  \<^verbatim>\<open>typedef struct { long r0, r1, g0, g1, b0, b1, vol; } box;\<close> with the comment
  \<^verbatim>\<open>r0 < col <= r1, etc..\<close>
\<close>

record box =
  r0 :: int
  r1 :: int
  g0 :: int
  g1 :: int
  b0 :: int
  b1 :: int
  vol :: int

text \<open>
  The five global tables of 33*33*33 entries.  A table is a function from the index
  to the entry; the index \<^verbatim>\<open>r*(33*33)+g*33+b\<close> of the entry \<open>[r][g][b]\<close> is \<open>ind r g b\<close> for
  coordinates \<open>r\<close>, \<open>g\<close>, \<open>b\<close> from 0 to 32.
  The \<^verbatim>\<open>long\<close> entries are unbounded integers in the model (no overflow), the
  \<^verbatim>\<open>float\<close> entries of \<^verbatim>\<open>m2\<close> are reals.
\<close>

definition ind :: "nat \<Rightarrow> nat \<Rightarrow> nat \<Rightarrow> int" where
  "ind r g b = int r * (33 * 33) + int g * 33 + int b"









































section \<open>Properties of the quantizer state\<close>







section \<open>Statements of the specification, for comparison with the code\<close>

text \<open>
  These two definitions follow the words of the specification, not the source.

  The river mask as the specification states it: the phase is \<open>x*\<pi>/gridSize\<close>, the
  sine is scaled by the river width (\<open>sin(...)*0.52 + 0.48\<close>) and capped above at 1.
\<close>

definition river_mask_claimed :: "real \<Rightarrow> nat \<Rightarrow> real \<Rightarrow> real" where
  "river_mask_claimed gridSize x river =
     min 1 (sin (real x * pi / gridSize + river * 4) * 0.52 + 0.48)"


section \<open>Concrete inputs\<close>

text \<open>A raster whose cell \<open>(3, 5)\<close> has height 1 and every other cell height 0.\<close>

definition raster_one :: "nat \<Rightarrow> vcol" where
  "raster_one k = (if k = 5 * 512 + 3
     then \<lparr>col_b = 30, col_g = 20, col_r = 10, col_a = 1\<rparr>
     else \<lparr>col_b = 9, col_g = 9, col_r = 9, col_a = 0\<rparr>)"




text \<open>Noise that is 0 at every sample point, and the global arrays as they are at start.\<close>

definition noise_flat :: "nat \<Rightarrow> cell_noise" where
  "noise_flat k = ((0, 0), (0, 0), (0, 0), 0)"

definition bufs_zero :: terrain_bufs where
  "bufs_zero = (\<lambda>k. \<lparr>col_b = 0, col_g = 0, col_r = 0, col_a = 0\<rparr>,
                \<lambda>k. \<lparr>col_b = 0, col_g = 0, col_r = 0, col_a = 0\<rparr>,
                \<lambda>k. 0)"

section \<open>Lemmas on loops over index ranges\<close>

lemma concat_upt_member:
  "i < n \<Longrightarrow> v \<in> set (f i) \<Longrightarrow> v \<in> set (concat (map f [0..<n]))"
  by auto

lemma filter_concat_upt_none:
  "(\<And>j. j < n \<Longrightarrow> filter P (f j) = []) \<Longrightarrow> filter P (concat (map f [0..<n])) = []"
  by (induction n) simp_all

lemma filter_concat_upt_single:
  assumes "i < n"
    and "\<And>j. j < n \<Longrightarrow> j \<noteq> i \<Longrightarrow> filter P (f j) = []"
  shows "filter P (concat (map f [0..<n])) = filter P (f i)"
  using assms
proof (induction n)
  case 0
  then show ?case by simp
next
  case (Suc n)
  show ?case
  proof (cases "i = n")
    case True
    have "filter P (concat (map f [0..<n])) = []"
      by (rule filter_concat_upt_none) (use Suc.prems(2) True in simp)
    then show ?thesis using True by simp
  next
    case False
    with Suc.prems have "i < n" by simp
    moreover have "filter P (f n) = []" using Suc.prems(2) [of n] False by simp
    ultimately show ?thesis using Suc by simp
  qed
qed


lemma fold_invariant:
  assumes "P s" and "\<And>x s. x \<in> set xs \<Longrightarrow> P s \<Longrightarrow> P (f x s)"
  shows "P (fold f xs s)"
  using assms by (induction xs arbitrary: s) simp_all

lemma grid_fold_invariant:
  assumes "P s" and "\<And>x y s. x < VSID \<Longrightarrow> y < VSID \<Longrightarrow> P s \<Longrightarrow> P (body x y s)"
  shows "P (grid_fold body s)"
  unfolding grid_fold_def
proof (rule fold_invariant [where P = P, OF assms(1)])
  fix y s assume "y \<in> set [0..<VSID]" and "P s"
  then show "P (fold (\<lambda>x. body x y) [0..<VSID] s)"
    by (intro fold_invariant [where P = P]) (simp_all add: assms(2))
qed

lemma row_fold_pointwise:
  assumes "n \<le> VSID"
  shows "fold (\<lambda>x s. s(y * VSID + x := G x y (s (y * VSID + x)))) [0..<n] s k =
     (if k div VSID = y \<and> k mod VSID < n then G (k mod VSID) y (s k) else s k)"
proof -
  define upd where "upd = (\<lambda>x s. s(y * VSID + x := G x y (s (y * VSID + x))))"
  have upd: "upd x t j = (if j = y * VSID + x then G x y (t j) else t j)" for x t j
    by (simp add: upd_def)
  have "fold upd [0..<n] s k =
     (if k div VSID = y \<and> k mod VSID < n then G (k mod VSID) y (s k) else s k)"
    using assms
  proof (induction n)
    case 0
    then show ?case by simp
  next
    case (Suc n)
    then have n: "n < VSID" by simp
    have eq: "k = y * VSID + n \<longleftrightarrow> k div VSID = y \<and> k mod VSID = n"
      using n div_mult_mod_eq [of k VSID] by auto
    have "fold upd [0..<Suc n] s k = upd n (fold upd [0..<n] s) k" by simp
    also have "\<dots> = (if k = y * VSID + n then G n y (fold upd [0..<n] s k) else fold upd [0..<n] s k)"
      by (rule upd)
    finally show ?case using Suc.IH n eq by (auto simp: less_Suc_eq)
  qed
  then show ?thesis by (simp only: upd_def)
qed

lemma grid_rows_pointwise:
  assumes "m \<le> VSID"
  shows "fold (\<lambda>y. fold (\<lambda>x s. s(y * VSID + x := G x y (s (y * VSID + x)))) [0..<VSID]) [0..<m] s k =
     (if k div VSID < m then G (k mod VSID) (k div VSID) (s k) else s k)"
proof -
  define row where "row = (\<lambda>y. fold (\<lambda>x s. s(y * VSID + x := G x y (s (y * VSID + x)))) [0..<VSID])"
  have V: "0 < VSID" by (simp add: VSID_def)
  have row: "row y t j = (if j div VSID = y then G (j mod VSID) y (t j) else t j)" for y t j
    unfolding row_def using V by (subst row_fold_pointwise) simp_all
  have "fold row [0..<m] s k =
     (if k div VSID < m then G (k mod VSID) (k div VSID) (s k) else s k)"
    using assms
  proof (induction m)
    case 0
    then show ?case by simp
  next
    case (Suc m)
    have "fold row [0..<Suc m] s k = row m (fold row [0..<m] s) k" by simp
    also have "\<dots> = (if k div VSID = m then G (k mod VSID) m (fold row [0..<m] s k)
        else fold row [0..<m] s k)"
      by (rule row)
    finally show ?case using Suc by (auto simp: less_Suc_eq)
  qed
  then show ?thesis by (simp only: row_def)
qed

lemma grid_fold_pointwise:
  "grid_fold (\<lambda>x y s. s(y * VSID + x := G x y (s (y * VSID + x)))) s k =
     (if k < VSID * VSID then G (k mod VSID) (k div VSID) (s k) else s k)"
proof -
  have V: "0 < VSID" by (simp add: VSID_def)
  have "k div VSID < VSID \<longleftrightarrow> k < VSID * VSID"
    using V by (simp add: div_less_iff_less_mult mult.commute)
  then show ?thesis
    unfolding grid_fold_def by (simp only: grid_rows_pointwise [OF order_refl])
qed

section \<open>Voxelizer cutoff\<close>

lemma writes_at_cell_other_row:
  "y' \<noteq> y \<Longrightarrow> filter (\<lambda>w. fst (fst w) = int x \<and> fst (snd (fst w)) = int y)
     (concat (map (\<lambda>x'. voxel_cell x' y' (argb (y' * VSID + x'))) [0..<n])) = []"
  by (induction n) (auto simp: voxel_cell_def Let_def)

lemma writes_at_cell_other_col:
  "x' \<noteq> x \<Longrightarrow> filter (\<lambda>w. fst (fst w) = int x \<and> fst (snd (fst w)) = int y)
     (voxel_cell x' y' c) = []"
  by (auto simp: voxel_cell_def Let_def)

lemma writes_at_cell_same:
  "filter (\<lambda>w. fst (fst w) = int x \<and> fst (snd (fst w)) = int y) (voxel_cell x y c)
     = voxel_cell x y c"
  by (auto simp: voxel_cell_def Let_def)

text \<open>
  Claim C7.  For every grid cell \<open>(x, y)\<close> the voxelizer issues exactly one
  \<^verbatim>\<open>volume_set_at\<close> at position \<open>(x, y, h)\<close> with the cell's red, green and blue bytes and
  alpha 255 when the height channel \<open>h\<close> of the cell is nonzero, and no write at all for
  that column when \<open>h\<close> is 0.
\<close>

theorem process_voxel_data_cell:
  assumes "x < VSID" and "y < VSID"
  shows "writes_at x y (process_voxel_data argb) =
     (let c = argb (y * VSID + x)
      in if col_a c \<noteq> 0
         then [((int x, int y, uint (col_a c)), (col_r c, col_g c, col_b c, 255))]
         else [])"
proof -
  let ?P = "\<lambda>w::vwrite. fst (fst w) = int x \<and> fst (snd (fst w)) = int y"
  let ?row = "\<lambda>y'. concat (map (\<lambda>x'. voxel_cell x' y' (argb (y' * VSID + x'))) [0..<VSID])"
  have "filter ?P (concat (map ?row [0..<VSID])) = filter ?P (?row y)"
    by (rule filter_concat_upt_single [OF assms(2)]) (simp add: writes_at_cell_other_row)
  also have "\<dots> = filter ?P (voxel_cell x y (argb (y * VSID + x)))"
    by (rule filter_concat_upt_single [OF assms(1)]) (simp add: writes_at_cell_other_col)
  also have "\<dots> = voxel_cell x y (argb (y * VSID + x))"
    by (rule writes_at_cell_same)
  finally have "writes_at x y (process_voxel_data argb) = voxel_cell x y (argb (y * VSID + x))"
    by (simp add: writes_at_def process_voxel_data_def)
  moreover have "0 < uint w \<longleftrightarrow> w \<noteq> 0" for w :: uchar
    using uint_0_iff [of w] uint_ge_0 [of w] by arith
  ultimately show ?thesis
    by (simp add: voxel_cell_def Let_def)
qed

theorem process_voxel_data_cell_witness:
  "writes_at 3 5 (process_voxel_data raster_one) = [((3, 5, 1), (10, 20, 30, 255))]
   \<and> writes_at 4 5 (process_voxel_data raster_one) = []"
  using process_voxel_data_cell [of 3 5 raster_one] process_voxel_data_cell [of 4 5 raster_one]
  by (simp add: VSID_def raster_one_def)

section \<open>The signature and the raster bounds\<close>

lemma signprint_targets_lower:
  "list_all (\<lambda>i. y0 * int VSID + x0 \<le> i) (signprint_targets x0 y0)"
  by (simp add: signprint_targets_def list_all_iff)

lemma signprint_targets_member:
  "x < SIGNXSIZ \<Longrightarrow> y < SIGNYSIZ \<Longrightarrow> sign_bit x y \<Longrightarrow>
     (y0 * int VSID + x0) + int y * int VSID + int x \<in> set (signprint_targets x0 y0)"
  unfolding signprint_targets_def
  by (rule concat_upt_member [of y], assumption, rule concat_upt_member [of x]) simp_all

lemma sign_bit_4_0: "sign_bit 4 0"
  by (simp add: sign_bit_def signfplc_def SIGNBPL_def drop_bit_eq_div)

text \<open>
  Claim C6, at the call \<^verbatim>\<open>signprint(426,982)\<close> that \<^verbatim>\<open>generate_tomland_terrain\<close> makes
  with \<^verbatim>\<open>VSID\<close> = 512: the call performs stores (one of them at cell index 503214, for
  the bitmap bit \<open>(4, 0)\<close>), and every store it performs has a cell index of at least
  \<open>VSID*VSID\<close>, that is, beyond the end of the raster buffer.
\<close>

theorem signprint_fixed_call_outside_raster:
  "503214 \<in> set (signprint_targets 426 982) \<and>
   list_all (\<lambda>i. int (VSID * VSID) \<le> i) (signprint_targets 426 982)"
proof
  show "503214 \<in> set (signprint_targets 426 982)"
    using signprint_targets_member [of 4 0 982 426, OF _ _ sign_bit_4_0]
    by (simp add: SIGNXSIZ_def SIGNYSIZ_def VSID_def)
  have "list_all (\<lambda>i. 982 * int VSID + 426 \<le> i) (signprint_targets 426 982)"
    by (rule signprint_targets_lower)
  then show "list_all (\<lambda>i. int (VSID * VSID) \<le> i) (signprint_targets 426 982)"
    by (rule list.pred_mono_strong) (simp add: VSID_def)
qed

section \<open>The river mask\<close>

lemma carve_dry: "fst (carve x dn river) = (dn * - 20 + 28) * max 0 (river_mask x river)"
  by (simp add: carve_def Let_def max_def)

lemma carve_wet:
  "snd (carve x dn river) =
     (let c = (dn * - 20 + 28) * river_mask x river
      in if c < fst (carve x dn river) then - ln (1 - c) else c)"
  by (simp add: carve_def Let_def)

text \<open>
  Claim C2, as the code has it.  For every cell in column \<open>x\<close>, the river mask factor
  is \<open>sin(x*\<pi>/256 + river*4)*0.52 + 0.48\<close> capped above at 1: the phase divides by
  the constant 256 whatever the grid side is, so it is the formula of the claim with 256
  in the place of \<open>gridSize\<close>.  This factor multiplies the raw sample \<open>-20*d + 28\<close>
  to give the wet sample (before the logarithm); the dry sample is the raw sample times
  the same factor cut off below at 0.
\<close>

theorem river_mask_fixed_period:
  "river_mask x river = min 1 (sin (real x * pi / 256 + river * 4) * 0.52 + 0.48)
   \<and> river_mask x river = river_mask_claimed 256 x river
   \<and> fst (carve x dn river) = (dn * - 20 + 28) * max 0 (river_mask x river)
   \<and> snd (carve x dn river) =
       (let c = (dn * - 20 + 28) * river_mask x river
        in if c < fst (carve x dn river) then - ln (1 - c) else c)"
proof -
  have "river_mask x river = min 1 (sin (real x * pi / 256 + river * 4) * 0.52 + 0.48)"
    by (simp add: river_mask_def Let_def min_def)
  then show ?thesis
    using carve_dry [of x dn river] carve_wet [of x dn river]
    by (simp only: river_mask_claimed_def simp_thms)
qed

text \<open>
  The claim as stated, with the grid side 512 of the code, fails in column 256 at
  \<open>river = 0\<close>: the code's factor is \<open>sin \<pi> * 0.52 + 0.48 = 0.48\<close>, the claimed one
  is \<open>sin (\<pi>/2) * 0.52 + 0.48 = 1\<close>.
\<close>

theorem river_mask_grid_side_counterexample:
  "river_mask 256 0 = 0.48 \<and> river_mask_claimed (real VSID) 256 0 = 1"
  by (simp add: river_mask_def river_mask_claimed_def VSID_def Let_def)

section \<open>Clamping of the stored channels\<close>

lemma uint_uchar_of_real:
  assumes "0 \<le> v" "v < 256"
  shows "uint (uchar_of_real v) = \<lfloor>v\<rfloor>"
proof -
  have "0 \<le> \<lfloor>v\<rfloor>" "\<lfloor>v\<rfloor> < 256" using assms by (simp_all add: floor_less_iff)
  then show ?thesis using assms
    by (simp add: uchar_of_real_def trunc_real_def uint_word_of_int take_bit_eq_mod)
qed

lemma uint_clamped_store:
  assumes "0 \<le> m" "m \<le> 255"
  shows "uint (uchar_of_real (min (max v 0) (real_of_int m))) = \<lfloor>min (max v 0) (real_of_int m)\<rfloor>"
    and "\<lfloor>min (max v 0) (real_of_int m)\<rfloor> \<le> m"
    and "0 \<le> \<lfloor>min (max v 0) (real_of_int m)\<rfloor>"
proof -
  let ?c = "min (max v 0) (real_of_int m)"
  have c: "0 \<le> ?c" "?c \<le> real_of_int m" using assms by simp_all
  then have "?c < 256" using assms by linarith
  with c show "uint (uchar_of_real ?c) = \<lfloor>?c\<rfloor>" by (simp add: uint_uchar_of_real)
  show "\<lfloor>?c\<rfloor> \<le> m" using c(2) by (simp add: floor_le_iff) 
  show "0 \<le> \<lfloor>?c\<rfloor>" using c(1) by simp
qed

lemma maxa_of_range: "0 \<le> maxa_of am" "maxa_of am \<le> 255"
proof -
  have "uint w \<le> 255" for w :: uchar using uint_lt2p [of w] by simp
  then show "0 \<le> maxa_of am" "maxa_of am \<le> 255" by (simp_all add: maxa_of_def le_max_iff_disj)
qed





section \<open>The shadow march\<close>

lemma shadow_march_char:
  "f = h + 0.44 * real i \<Longrightarrow>
   shadow_march hgt x y i f s =
     (if \<exists>j. i \<le> j \<and> j < drop_bit 2 VSID \<and> hgt (march_index x y j j) > h + 0.44 * real j
      then 32 else s)"
proof (induction hgt x y i f s rule: shadow_march.induct)
  case (1 hgt x y i f s)
  show ?case
  proof (cases "i < drop_bit 2 VSID")
    case False
    then show ?thesis by (subst shadow_march.simps) auto
  next
    case True
    show ?thesis
    proof (cases "hgt (march_index x y i i) > f")
      case hit: True
      then show ?thesis using True "1.prems" by (subst shadow_march.simps) auto
    next
      case miss: False
      have f': "f + 0.44 = h + 0.44 * real (i + 1)" using "1.prems" by (simp add: algebra_simps)
      have "(\<exists>j. i \<le> j \<and> j < drop_bit 2 VSID \<and> hgt (march_index x y j j) > h + 0.44 * real j)
        \<longleftrightarrow> (\<exists>j. i + 1 \<le> j \<and> j < drop_bit 2 VSID \<and> hgt (march_index x y j j) > h + 0.44 * real j)"
        using miss "1.prems" by (metis Suc_eq_plus1 Suc_leI le_neq_implies_less Suc_leD)
      then show ?thesis
        using True miss "1.IH" [OF True miss f'] by (subst shadow_march.simps) simp
    qed
  qed
qed









section \<open>The shadow composite\<close>

lemma uint_uchar_le: "uint w \<le> 255" for w :: uchar
  using uint_lt2p [of w] by simp

lemma shadow_pass_range: "uint (shadow_pass hgt k) \<le> 32"
proof -
  have m: "uint (shadow_march hgt x y 1 (h + 0.44 * real 1) 0) \<le> 32" for x y h
    by (simp only: shadow_march_char [OF refl]) simp
  have "uint (shadow_cell hgt x y 0) \<le> 32" for x y
    using m [of x y "hgt (y * VSID + x)"] by (simp add: shadow_cell_def)
  then show ?thesis
    unfolding shadow_pass_def
    by (simp only: grid_fold_pointwise [where G = "shadow_cell hgt"]) simp
qed

lemma blur_cell_range:
  assumes "\<And>k. uint (sh k) \<le> 32"
  shows "uint (blur_cell x y sh k) \<le> 32"
proof -
  define v where "v = uint (sh (y * VSID + x))
          + uint (sh (push_bit VSHL ((y + 1) AND (VSID - 1)) + x))
          + uint (sh (push_bit VSHL y + ((x + 1) AND (VSID - 1))))
          + uint (sh (push_bit VSHL ((y + 1) AND (VSID - 1)) + ((x + 1) AND (VSID - 1))))
          + 2"
  have "0 \<le> v" "v \<le> 130"
    unfolding v_def
    using assms [of "y * VSID + x"] assms [of "push_bit VSHL ((y + 1) AND (VSID - 1)) + x"]
      assms [of "push_bit VSHL y + ((x + 1) AND (VSID - 1))"]
      assms [of "push_bit VSHL ((y + 1) AND (VSID - 1)) + ((x + 1) AND (VSID - 1))"]
    by simp_all
  then have d: "0 \<le> drop_bit 2 v" "drop_bit 2 v \<le> 32"
    by (simp_all add: drop_bit_eq_div)
  then have "uint (word_of_int (drop_bit 2 v) :: uchar) = drop_bit 2 v"
    by (simp add: uint_word_of_int take_bit_eq_mod)
  then show ?thesis
    using d assms [of k] by (simp add: blur_cell_def v_def)
qed

lemma blur_pass_range:
  assumes "\<And>k. uint (sh k) \<le> 32"
  shows "uint (blur_pass sh k) \<le> 32"
proof -
  have "\<forall>k. uint (blur_pass sh k) \<le> 32"
    unfolding blur_pass_def
    by (rule grid_fold_invariant [where P = "\<lambda>s. \<forall>k. uint (s k) \<le> 32"])
       (simp_all add: assms blur_cell_range)
  then show ?thesis by simp
qed

lemma composite_value_range:
  assumes s: "uint s \<le> 32" and l: "uint lit + uint am \<le> 255"
  shows "0 \<le> composite_value lit am s" and "composite_value lit am s \<le> 255"
proof -
  define i where "i = 256 - push_bit 2 (uint s)"
  have i: "0 \<le> i" "i \<le> 256" using s by (simp_all add: i_def push_bit_eq_mult)
  have "uint lit * i \<le> uint lit * 256" using i by (intro mult_left_mono) simp_all
  then have "uint lit * i div 256 \<le> uint lit" by simp
  moreover have "0 \<le> uint lit * i div 256" using i by (simp add: pos_imp_zdiv_nonneg_iff)
  ultimately show "0 \<le> composite_value lit am s" and "composite_value lit am s \<le> 255"
    using l by (simp_all add: composite_value_def i_def [symmetric] drop_bit_eq_div)
qed

lemma lit_cell_headroom:
  "uint (col_r (lit_cell am gr gg gb nx ny nz s0)) \<le> 255 - maxa_of am"
  "uint (col_g (lit_cell am gr gg gb nx ny nz s0)) \<le> 255 - maxa_of am"
  "uint (col_b (lit_cell am gr gg gb nx ny nz s0)) \<le> 255 - maxa_of am"
proof -
  have m: "0 \<le> 255 - maxa_of am" "255 - maxa_of am \<le> 255"
    using maxa_of_range [of am] by simp_all
  have "uint (uchar_of_real (min (max v 0) (real_of_int (255 - maxa_of am)))) \<le> 255 - maxa_of am" for v
    using uint_clamped_store(1,2) [OF m, of v] by simp
  then show "uint (col_r (lit_cell am gr gg gb nx ny nz s0)) \<le> 255 - maxa_of am"
    "uint (col_g (lit_cell am gr gg gb nx ny nz s0)) \<le> 255 - maxa_of am"
    "uint (col_b (lit_cell am gr gg gb nx ny nz s0)) \<le> 255 - maxa_of am"
    unfolding lit_cell_def Let_def vcol.select_convs by blast+
qed

lemma maxa_of_ge:
  "uint (col_r am) \<le> maxa_of am" "uint (col_g am) \<le> maxa_of am" "uint (col_b am) \<le> maxa_of am"
  by (simp_all add: maxa_of_def)

lemma terrain_cell_lit:
  assumes "terrain_cell x ns = (am, lit, h)"
  shows "\<exists>gr gg gb nx ny nz s0. lit = lit_cell am gr gg gb nx ny nz s0"
  using assms by (fastforce simp: terrain_cell_def Let_def split: prod.splits)

lemma fold_prod3:
  "fold (\<lambda>x (a, b, c). (fa x a, fb x b, fc x c)) xs (a, b, c) =
     (fold fa xs a, fold fb xs b, fold fc xs c)"
  by (induction xs arbitrary: a b c) simp_all

lemma terrain_body_eq:
  "terrain_body inp x y =
     (\<lambda>(amb, buf, hgt).
        (amb(y * VSID + x := fst (terrain_cell x (inp (y * VSID + x)))),
         buf(y * VSID + x := fst (snd (terrain_cell x (inp (y * VSID + x))))),
         hgt(y * VSID + x := snd (snd (terrain_cell x (inp (y * VSID + x)))))))"
  by (auto simp: fun_eq_iff terrain_body_def split: prod.splits)

lemma terrain_pass_eq:
  "terrain_pass inp (amb, buf, hgt) =
     (grid_fold (\<lambda>x y s. s(y * VSID + x := fst (terrain_cell x (inp (y * VSID + x))))) amb,
      grid_fold (\<lambda>x y s. s(y * VSID + x := fst (snd (terrain_cell x (inp (y * VSID + x)))))) buf,
      grid_fold (\<lambda>x y s. s(y * VSID + x := snd (snd (terrain_cell x (inp (y * VSID + x)))))) hgt)"
proof -
  let ?A = "\<lambda>x y s. s(y * VSID + x := fst (terrain_cell x (inp (y * VSID + x))))"
  let ?B = "\<lambda>x y s. s(y * VSID + x := fst (snd (terrain_cell x (inp (y * VSID + x)))))"
  let ?C = "\<lambda>x y s. s(y * VSID + x := snd (snd (terrain_cell x (inp (y * VSID + x)))))"
  have row: "fold (\<lambda>x. terrain_body inp x y) xs =
      (\<lambda>(a, b, c). (fold (\<lambda>x. ?A x y) xs a, fold (\<lambda>x. ?B x y) xs b, fold (\<lambda>x. ?C x y) xs c))" for y xs
    unfolding terrain_body_eq by (rule ext) (simp add: fold_prod3 split: prod.splits)
  show ?thesis
    unfolding terrain_pass_def grid_fold_def row by (rule fold_prod3)
qed

lemma terrain_pass_cell:
  assumes "k < VSID * VSID" and "terrain_pass inp st = (amb, buf, hgt)"
  shows "terrain_cell (k mod VSID) (inp k) = (amb k, buf k, hgt k)"
proof -
  obtain a0 b0 h0 where st: "st = (a0, b0, h0)" by (cases st)
  have k: "k div VSID * VSID + k mod VSID = k" by simp
  have p: "grid_fold (\<lambda>x y s. s(y * VSID + x := F x y)) s k = F (k mod VSID) (k div VSID)" for F s
    using grid_fold_pointwise [where G = "\<lambda>x y v. F x y" and k = k] assms(1) by simp
  show ?thesis
    using assms(2) unfolding st terrain_pass_eq by (auto simp: p k)
qed

lemma composite_pass_cell:
  assumes "k < VSID * VSID"
  shows "composite_pass amb sh buf k = composite_cell (buf k) (amb k) (sh k)"
proof -
  have k: "k div VSID * VSID + k mod VSID = k" by simp
  show ?thesis
    unfolding composite_pass_def
    using grid_fold_pointwise
      [where G = "\<lambda>x y c. composite_cell c (amb (y * VSID + x)) (sh (y * VSID + x))" and k = k and s = buf]
      assms
    by (simp add: k)
qed

lemma uint_composite_store:
  assumes "0 \<le> v" "v \<le> 255"
  shows "uint (word_of_int v :: uchar) = v"
  using assms by (simp add: uint_word_of_int take_bit_eq_mod)

text \<open>
  Claim C9.  For every cell \<open>k\<close> of the grid, with the buffers the terrain loop
  produced from any noise and the shadow factors the march and the smoothing pass
  produced from the height buffer: the factor is at most 32, each lit channel is at most
  255 minus the largest ambient channel of the cell, each composite
  \<open>((lit*(256 - 4*factor))>>8) + ambient\<close> lies in \<open>[0,255]\<close>, and the byte stored
  into the raster is that value (no overflow).
\<close>

theorem composite_fits_byte:
  assumes "k < VSID * VSID"
  shows "(case terrain_pass inp st of (amb, buf, hgt) \<Rightarrow>
     let sh = blur_pass (shadow_pass hgt);
         vr = composite_value (col_r (buf k)) (col_r (amb k)) (sh k);
         vg = composite_value (col_g (buf k)) (col_g (amb k)) (sh k);
         vb = composite_value (col_b (buf k)) (col_b (amb k)) (sh k)
     in uint (sh k) \<le> 32
      \<and> uint (col_r (buf k)) \<le> 255 - maxa_of (amb k)
      \<and> uint (col_g (buf k)) \<le> 255 - maxa_of (amb k)
      \<and> uint (col_b (buf k)) \<le> 255 - maxa_of (amb k)
      \<and> 0 \<le> vr \<and> vr \<le> 255 \<and> 0 \<le> vg \<and> vg \<le> 255 \<and> 0 \<le> vb \<and> vb \<le> 255
      \<and> uint (col_r (shade_terrain inp st k)) = vr
      \<and> uint (col_g (shade_terrain inp st k)) = vg
      \<and> uint (col_b (shade_terrain inp st k)) = vb)"
proof -
  obtain amb buf hgt where tp: "terrain_pass inp st = (amb, buf, hgt)"
    by (cases "terrain_pass inp st")
  define sh where "sh = blur_pass (shadow_pass hgt)"
  have sh: "uint (sh k) \<le> 32"
    unfolding sh_def by (rule blur_pass_range) (rule shadow_pass_range)
  have tc: "terrain_cell (k mod VSID) (inp k) = (amb k, buf k, hgt k)"
    using assms tp by (rule terrain_pass_cell)
  then obtain gr gg gb nx ny nz s0 where lit: "buf k = lit_cell (amb k) gr gg gb nx ny nz s0"
    using terrain_cell_lit by blast
  have head: "uint (col_r (buf k)) \<le> 255 - maxa_of (amb k)"
    "uint (col_g (buf k)) \<le> 255 - maxa_of (amb k)"
    "uint (col_b (buf k)) \<le> 255 - maxa_of (amb k)"
    unfolding lit by (rule lit_cell_headroom)+
  have sum: "uint (col_r (buf k)) + uint (col_r (amb k)) \<le> 255"
    "uint (col_g (buf k)) + uint (col_g (amb k)) \<le> 255"
    "uint (col_b (buf k)) + uint (col_b (amb k)) \<le> 255"
    using head maxa_of_ge [of "amb k"] by simp_all
  note r = composite_value_range [OF sh sum(1)]
  note g = composite_value_range [OF sh sum(2)]
  note b = composite_value_range [OF sh sum(3)]
  have st: "shade_terrain inp st k = composite_cell (buf k) (amb k) (sh k)"
    using assms by (simp add: shade_terrain_def tp composite_pass_cell sh_def)
  have "uint (col_r (shade_terrain inp st k)) = composite_value (col_r (buf k)) (col_r (amb k)) (sh k)"
    "uint (col_g (shade_terrain inp st k)) = composite_value (col_g (buf k)) (col_g (amb k)) (sh k)"
    "uint (col_b (shade_terrain inp st k)) = composite_value (col_b (buf k)) (col_b (amb k)) (sh k)"
    unfolding st composite_cell_def
    by (simp_all add: uint_composite_store r g b)
  then show ?thesis
    using sh head r g b by (simp add: tp Let_def sh_def)
qed

theorem composite_fits_byte_witness:
  "(case terrain_pass noise_flat bufs_zero of (amb, buf, hgt) \<Rightarrow>
      composite_value (col_r (buf 7)) (col_r (amb 7)) (blur_pass (shadow_pass hgt) 7) \<le> 255
      \<and> uint (col_r (shade_terrain noise_flat bufs_zero 7)) =
          composite_value (col_r (buf 7)) (col_r (amb 7)) (blur_pass (shadow_pass hgt) 7))"
  using composite_fits_byte [of 7 noise_flat bufs_zero]
  by (simp add: VSID_def Let_def split: prod.splits)

section \<open>Layout of the exported file\<close>

lemma write_run_eq: "write_run fil i z zz = fil @ concat (replicate (nat (zz - z)) (le4 i))"
proof (induction fil i z zz rule: write_run.induct)
  case (1 fil i z zz)
  show ?case
  proof (cases "z < zz")
    case True
    then have "nat (zz - z) = Suc (nat (zz - (z + 1)))" by simp
    then show ?thesis using True "1.IH" by (subst write_run.simps) simp
  next
    case False
    then show ?thesis by (subst write_run.simps) simp
  qed
qed

lemma slab_step_range:
  assumes "lo \<le> zz" and "zz \<le> 256"
  shows "lo \<le> slab_step argb x y i zz \<and> slab_step argb x y i zz \<le> 256"
proof -
  have u: "uint w \<le> 256" for w :: uchar using uint_lt2p [of w] by simp
  define a where "a = uint (col_a (argb (nat (int (y * VSID + x) + i))))"
  define b where "b = uint (col_a (argb (nat (int (y * VSID + x) + i * int VSID))))"
  have "a \<le> 256" "b \<le> 256" unfolding a_def b_def by (rule u)+
  then show ?thesis
    using assms unfolding slab_step_def Let_def a_def [symmetric] b_def [symmetric]
    by (simp split: if_splits)
qed

lemma slab_zz_range:
  "uint (col_a (argb (y * VSID + x))) + 1 \<le> slab_zz argb x y \<and> slab_zz argb x y \<le> 256"
proof -
  define z1 where "z1 = uint (col_a (argb (y * VSID + x))) + 1"
  have u: "z1 \<le> 256" unfolding z1_def using uint_lt2p [of "col_a (argb (y * VSID + x))"] by simp
  have s1: "z1 \<le> slab_step argb x y (- 1) z1 \<and> slab_step argb x y (- 1) z1 \<le> 256"
    using order_refl u by (rule slab_step_range)
  have "z1 \<le> slab_step argb x y 1 (slab_step argb x y (- 1) z1)
      \<and> slab_step argb x y 1 (slab_step argb x y (- 1) z1) \<le> 256"
    using s1 by (intro slab_step_range) simp_all
  then show ?thesis
    by (simp add: slab_zz_def Let_def z1_def)
qed

lemma fold_append_concat:
  "fold (\<lambda>x fil. fil @ g x) xs fil = fil @ concat (map g xs)"
  by (induction xs arbitrary: fil) simp_all

lemma savevxl_column_eq:
  "savevxl_column argb x y fil =
     fil @ [Byte 0, Byte (col_a (argb (y * VSID + x))), Byte (word_of_int (slab_zz argb x y - 1)), Byte 0]
         @ concat (replicate (nat (slab_zz argb x y - uint (col_a (argb (y * VSID + x)))))
             (le4 ((cell_long (argb (y * VSID + x)) AND 0xffffff) OR 0x80000000)))"
proof -
  have "0 \<le> slab_zz argb x y - 1" "slab_zz argb x y - 1 < 256"
    using slab_zz_range [of argb y x] uint_ge_0 [of "col_a (argb (y * VSID + x))"] by linarith+
  then have "(slab_zz argb x y - 1) mod 256 = slab_zz argb x y - 1"
    by simp
  then have m: "(slab_zz argb x y - 1) AND 255 = slab_zz argb x y - 1"
    using take_bit_eq_mask [of 8 "slab_zz argb x y - 1"] 
    by (simp add: take_bit_eq_mod mask_eq_exp_minus_1)
  have z: "word_of_int (uint (col_a (argb (y * VSID + x)))) = col_a (argb (y * VSID + x))"
    by simp
  show ?thesis
    unfolding savevxl_column_def Let_def fputc_def write_run_eq m z
    by (simp only: append_assoc append.simps word_of_int_0)
qed


lemma marker_top: "drop_bit 24 ((w AND 0xffffff) OR 0x80000000) = (0x80 :: 32 word)"
proof -
  have a: "(0xffffff :: 32 word) = mask 24" by (simp add: mask_eq_exp_minus_1)
  have b: "(0x80000000 :: 32 word) = push_bit 24 0x80" by (simp add: push_bit_eq_mult)
  show ?thesis
    unfolding a b
    by (simp add: drop_bit_or take_bit_eq_mask [symmetric] drop_bit_take_bit drop_bit_push_bit)
qed

lemma marker_low: "take_bit 24 ((w AND 0xffffff) OR 0x80000000) = take_bit 24 (w :: 32 word)"
proof -
  have a: "(0xffffff :: 32 word) = mask 24" by (simp add: mask_eq_exp_minus_1)
  have b: "(0x80000000 :: 32 word) = push_bit 24 0x80" by (simp add: push_bit_eq_mult)
  show ?thesis
    unfolding a b
    by (simp add: take_bit_or take_bit_eq_mask [symmetric] take_bit_push_bit)
qed

lemma length_le4: "length (le4 w) = 4"
  by (simp add: le4_def)

lemma length_dpoint3d: "length (dpoint3d p) = 24"
  by (simp add: dpoint3d_def dbl8_def split: prod.splits)

lemma savevxl_file:
  "savevxl True argb = (0, Some (
      le4 0x09072000 @ le4 (of_nat VSID) @ le4 (of_nat VSID)
      @ dpoint3d (real VSID * 0.5, real VSID * 0.5,
                  real_of_int (uint (col_a (argb (drop_bit 1 VSID * VSID + drop_bit 1 VSID))) - 64))
      @ dpoint3d (1, 0, 0) @ dpoint3d (0, 0, 1) @ dpoint3d (0, - 1, 0)
      @ concat (map (\<lambda>y. concat (map (\<lambda>x. savevxl_column argb x y []) [0..<VSID])) [0..<VSID])))"
proof -
  have col: "savevxl_column argb x y = (\<lambda>fil. fil @ savevxl_column argb x y [])" for x y
    by (rule ext) (simp only: savevxl_column_eq append_Nil append_assoc)
  have row: "fold (\<lambda>x. savevxl_column argb x y) xs =
      (\<lambda>fil. fil @ concat (map (\<lambda>x. savevxl_column argb x y []) xs))" for y xs
    by (subst col, rule ext, rule fold_append_concat)
  have "grid_fold (savevxl_column argb) fil =
      fil @ concat (map (\<lambda>y. concat (map (\<lambda>x. savevxl_column argb x y []) [0..<VSID])) [0..<VSID])" for fil
    unfolding grid_fold_def row by (rule fold_append_concat)
  then show ?thesis
    by (simp add: savevxl_def Let_def)
qed


lemma slab_bottom:
  "uint (word_of_int (slab_zz argb x y - 1) :: uchar) = slab_zz argb x y - 1"
proof -
  have "0 \<le> slab_zz argb x y - 1" "slab_zz argb x y - 1 \<le> 255"
    using slab_zz_range [of argb y x] uint_ge_0 [of "col_a (argb (y * VSID + x))"] by linarith+
  then show ?thesis by (rule uint_composite_store)
qed

text \<open>
  Claim C5.  When the file opens, \<^verbatim>\<open>savevxl\<close> returns 0 and the file is, in this
  order: the 4-byte version tag \<^verbatim>\<open>0x09072000\<close>, two 4-byte fields holding the grid
  side, four 24-byte vectors, and then the columns in row-major order (\<open>y\<close> outer,
  \<open>x\<close> inner).  The bytes of a column are the header \<open>(0, top, bottom, 0)\<close> followed
  by one 4-byte colour entry for each of the \<open>bottom - top + 1\<close> voxels of the run
  \<open>top..bottom\<close>; the top eight bits of the entry are \<^verbatim>\<open>0x80\<close> (its last byte in
  the file) and its low 24 bits are those of the cell.
\<close>

theorem savevxl_layout:
  "savevxl True argb = (0, Some (
      le4 0x09072000 @ le4 (of_nat VSID) @ le4 (of_nat VSID)
      @ dpoint3d (real VSID * 0.5, real VSID * 0.5,
                  real_of_int (uint (col_a (argb (drop_bit 1 VSID * VSID + drop_bit 1 VSID))) - 64))
      @ dpoint3d (1, 0, 0) @ dpoint3d (0, 0, 1) @ dpoint3d (0, - 1, 0)
      @ concat (map (\<lambda>y. concat (map (\<lambda>x. savevxl_column argb x y []) [0..<VSID])) [0..<VSID])))
   \<and> length (le4 w) = 4 \<and> length (dpoint3d p) = 24
   \<and> (let c = argb (y * VSID + x);
           top = col_a c;
           bottom = (word_of_int (slab_zz argb x y - 1) :: uchar);
           entry = (cell_long c AND 0xffffff) OR 0x80000000
       in savevxl_column argb x y [] =
            [Byte 0, Byte top, Byte bottom, Byte 0] @ concat (replicate (nat (uint bottom - uint top + 1)) (le4 entry))
        \<and> uint top \<le> uint bottom
        \<and> drop_bit 24 entry = 0x80
        \<and> take_bit 24 entry = take_bit 24 (cell_long c)
        \<and> le4 entry ! 3 = Byte 0x80)"
proof -
  have n: "uint (word_of_int (slab_zz argb x y - 1) :: uchar) - uint (col_a (argb (y * VSID + x))) + 1
      = slab_zz argb x y - uint (col_a (argb (y * VSID + x)))"
    unfolding slab_bottom by linarith
  have col: "savevxl_column argb x y [] =
      [Byte 0, Byte (col_a (argb (y * VSID + x))), Byte (word_of_int (slab_zz argb x y - 1)), Byte 0]
      @ concat (replicate (nat (uint (word_of_int (slab_zz argb x y - 1) :: uchar)
                                  - uint (col_a (argb (y * VSID + x))) + 1))
          (le4 ((cell_long (argb (y * VSID + x)) AND 0xffffff) OR 0x80000000)))"
    unfolding n by (simp only: savevxl_column_eq append_Nil)
  have le: "uint (col_a (argb (y * VSID + x))) \<le> uint (word_of_int (slab_zz argb x y - 1) :: uchar)"
    unfolding slab_bottom using slab_zz_range [of argb y x] by linarith
  have last: "le4 ((cell_long c AND 0xffffff) OR 0x80000000) ! 3 = Byte 0x80" for c
    by (simp add: le4_def marker_top)
  show ?thesis
    unfolding Let_def
    by (intro conjI savevxl_file length_le4 length_dpoint3d col le marker_top marker_low last)
qed

section \<open>The split of a box\<close>

















section \<open>The moment tables\<close>


lemma ind_row_below: "b \<le> 32 \<Longrightarrow> ind r g b - 33 * 33 \<noteq> ind r g b'"
  by (simp add: ind_def)














section \<open>The histogram\<close>












section \<open>The palette\<close>











end
